theory Spec2Isabelle
  imports Complex_Main
begin

section \<open>The race session of \<open>src/server.js\<close>\<close>

text \<open>
  JavaScript numbers are modelled as rationals. Every amount the program adds or subtracts
  (\<open>2\<close>, \<open>10\<close>, \<open>20\<close>, \<open>15\<close>, \<open>0.5\<close>) is a multiple of one half, progress and boost start at
  \<open>0\<close> and \<open>100\<close>, and on such values, far below \<open>2 ^ 53\<close>, the arithmetic of IEEE doubles is
  exact, so that the rational model computes what the program computes.

  Socket ids, room ids and action names are strings. \<open>undefined\<close> and \<open>null\<close> are \<open>None\<close>.
\<close>

type_synonym number = rat

text \<open>The object literal of the constructor (lines 43 and 44).\<close>

record RacePlayer =
  id :: string
  progress :: number
  boost :: number
  isDrifting :: bool
  username :: "string option"

text \<open>The fields of \<open>class RaceGame\<close> (lines 41 to 48).\<close>

record RaceGame =
  roomId :: string
  player1 :: RacePlayer
  player2 :: RacePlayer
  startTime :: nat
  finished :: bool
  winner :: "string option"

text \<open>
  The roster entries that \<open>join-lobby\<close> and the deferred cleanup store in the \<open>players\<close> map.
\<close>

record LobbyPlayer =
  lobby_id :: string
  lobby_username :: "string option"

subsection \<open>The insertion-ordered \<open>Map\<close> of JavaScript\<close>

text \<open>
  A \<open>Map\<close> iterates in insertion order, \<open>set\<close> on a present key keeps the key's position, and
  \<open>delete\<close> of an absent key does nothing. An association list with distinct keys models it.
\<close>

type_synonym ('k, 'v) js_map = "('k \<times> 'v) list"

fun map_get :: "('k, 'v) js_map \<Rightarrow> 'k \<Rightarrow> 'v option" where
  "map_get [] k = None"
| "map_get ((k', v) # m) k = (if k' = k then Some v else map_get m k)"

fun map_set :: "'k \<Rightarrow> 'v \<Rightarrow> ('k, 'v) js_map \<Rightarrow> ('k, 'v) js_map" where
  "map_set k v [] = [(k, v)]"
| "map_set k v ((k', v') # m) = (if k' = k then (k, v) # m else (k', v') # map_set k v m)"

fun map_delete :: "'k \<Rightarrow> ('k, 'v) js_map \<Rightarrow> ('k, 'v) js_map" where
  "map_delete k [] = []"
| "map_delete k ((k', v) # m) = (if k' = k then m else (k', v) # map_delete k m)"

subsection \<open>\<open>RaceGame\<close>: constructor and \<open>handlePlayerAction\<close>\<close>

text \<open>
  The constructor reads the two usernames from the global \<open>players\<close> map with
  \<open>players.get(id)?.username\<close>, and the clock with \<open>Date.now()\<close>; the map \<open>ps\<close> and the
  time \<open>now\<close> are arguments here.
\<close>

definition new_player :: "(string, LobbyPlayer) js_map \<Rightarrow> string \<Rightarrow> RacePlayer" where
  "new_player ps pid =
     \<lparr>id = pid, progress = 0, boost = 100, isDrifting = False,
      username = (case map_get ps pid of None \<Rightarrow> None | Some p \<Rightarrow> lobby_username p)\<rparr>"

definition new_RaceGame ::
  "(string, LobbyPlayer) js_map \<Rightarrow> nat \<Rightarrow> string \<Rightarrow> string \<Rightarrow> string \<Rightarrow> RaceGame" where
  "new_RaceGame ps now rid player1Id player2Id =
     \<lparr>roomId = rid, player1 = new_player ps player1Id,
      player2 = new_player ps player2Id, startTime = now,
      finished = False, winner = None\<rparr>"

text \<open>
  Line 51, \<open>this.player1.id === playerId ? this.player1 : this.player2\<close>: the reference the
  rest of the method mutates. The two players are distinct objects, so that a write through
  the reference changes exactly one of the two fields of the session.
\<close>

datatype seat = Seat1 | Seat2

definition seat_of :: "RaceGame \<Rightarrow> string \<Rightarrow> seat" where
  "seat_of g playerId = (if id (player1 g) = playerId then Seat1 else Seat2)"

fun seat_get :: "seat \<Rightarrow> RaceGame \<Rightarrow> RacePlayer" where
  "seat_get Seat1 g = player1 g"
| "seat_get Seat2 g = player2 g"

fun seat_put :: "seat \<Rightarrow> RacePlayer \<Rightarrow> RaceGame \<Rightarrow> RaceGame" where
  "seat_put Seat1 p g = g\<lparr>player1 := p\<rparr>"
| "seat_put Seat2 p g = g\<lparr>player2 := p\<rparr>"

text \<open>The \<open>switch\<close> of lines 53 to 70; a value that matches no \<open>case\<close> falls through.\<close>

definition switch_action :: "string \<Rightarrow> RacePlayer \<Rightarrow> RacePlayer" where
  "switch_action action p =
     (if action = ''accelerate'' then p\<lparr>progress := progress p + 2\<rparr>
      else if action = ''boost'' then
        (if boost p \<ge> 20 then p\<lparr>boost := boost p - 20, progress := progress p + 10\<rparr> else p)
      else if action = ''drift-start'' then p\<lparr>isDrifting := True\<rparr>
      else if action = ''drift-end'' then
        p\<lparr>isDrifting := False, boost := min 100 (boost p + 15)\<rparr>
      else p)"

text \<open>Lines 72 to 75, "Regenerate boost".\<close>

definition regenerate :: "RacePlayer \<Rightarrow> RacePlayer" where
  "regenerate p = (if \<not> isDrifting p then p\<lparr>boost := min 100 (boost p + 1 / 2)\<rparr> else p)"

text \<open>
  The whole method: the session after the call and the returned flag. Lines 77 to 84 are
  the winner check.
\<close>

definition handlePlayerAction :: "RaceGame \<Rightarrow> string \<Rightarrow> string \<Rightarrow> RaceGame \<times> bool" where
  "handlePlayerAction g playerId action =
     (let s = seat_of g playerId;
          p = regenerate (switch_action action (seat_get s g));
          g' = seat_put s p g
      in if progress p \<ge> 1000 \<and> \<not> finished g
         then (g'\<lparr>finished := True, winner := Some playerId\<rparr>, True)
         else (g', False))"

text \<open>
  A sequence of calls on one session: the result of each call (the session after it and the
  flag it returned), each call running on the session the previous one left.
\<close>

fun run_actions :: "RaceGame \<Rightarrow> (string \<times> string) list \<Rightarrow> (RaceGame \<times> bool) list" where
  "run_actions g [] = []"
| "run_actions g ((playerId, action) # cs) =
     (let (g', r) = handlePlayerAction g playerId action in (g', r) # run_actions g' cs)"

text \<open>The sessions a sequence of calls goes through, the one it starts from included.\<close>

definition sessions :: "RaceGame \<Rightarrow> (string \<times> string) list \<Rightarrow> RaceGame list" where
  "sessions g cs = g # map fst (run_actions g cs)"

text \<open>The invariant of the boost gauge, for both players of a session.\<close>

definition boost_in_range :: "RaceGame \<Rightarrow> bool" where
  "boost_in_range g \<longleftrightarrow>
     0 \<le> boost (player1 g) \<and> boost (player1 g) \<le> 100 \<and>
     0 \<le> boost (player2 g) \<and> boost (player2 g) \<le> 100"

section \<open>The socket handlers of \<open>src/server.js\<close>\<close>

text \<open>
  The process-wide state: the two maps of lines 36 and 37, and the cleanups that
  \<open>setTimeout\<close> has scheduled and that have not fired yet. All cleanups have the same delay
  of 5000 ms, so they fire in the order they were scheduled: the list is a queue.

  The callback of line 192 closes over \<open>roomId\<close> and over the session object, of which it
  reads the ids and the usernames of the two players only. \<open>handlePlayerAction\<close> never
  assigns those fields, so the queue holds the session as it was when the cleanup was
  scheduled. What the handlers emit is not part of the state and is left out.
\<close>

record Server =
  players :: "(string, LobbyPlayer) js_map"
  activeRaces :: "(string, RaceGame) js_map"
  timers :: "(string \<times> RaceGame) list"

definition initial :: Server where
  "initial = \<lparr>players = [], activeRaces = [], timers = []\<rparr>"

text \<open>
  Line 105, \<open>username || `Player${socket.id.slice(-4)}`\<close>: an absent or empty name is falsy,
  and \<open>slice(-4)\<close> is the last four characters, or the whole id when it is shorter.
\<close>

definition lobby_name :: "string \<Rightarrow> string option \<Rightarrow> string" where
  "lobby_name sid name =
     (case name of
        None \<Rightarrow> ''Player'' @ drop (length sid - 4) sid
      | Some u \<Rightarrow> if u = [] then ''Player'' @ drop (length sid - 4) sid else u)"

text \<open>The handler of \<open>join-lobby\<close> (lines 102 to 117), on the socket \<open>sid\<close>.\<close>

definition join_lobby :: "string \<Rightarrow> string option \<Rightarrow> Server \<Rightarrow> Server" where
  "join_lobby sid name st =
     st\<lparr>players := map_set sid
        \<lparr>lobby_id = sid, lobby_username = Some (lobby_name sid name)\<rparr> (players st)\<rparr>"

text \<open>
  Line 153, \<open>`race_${Date.now()}`\<close>: the clock is a whole number of milliseconds, which
  a template literal prints in decimal digits (every value \<open>Date.now()\<close> can return is below
  \<open>10 ^ 21\<close>, where JavaScript starts to print exponents).
\<close>

definition digit :: "nat \<Rightarrow> char" where
  "digit d = ''0123456789'' ! d"

fun decimal :: "nat \<Rightarrow> string" where
  "decimal n = (if n < 10 then [digit n] else decimal (n div 10) @ [digit (n mod 10)])"

declare decimal.simps [simp del]

text \<open>
  Lines 153 and 154: the room id made from the clock, and the session constructed under it.
  The constructor reads the clock again for \<open>startTime\<close>: \<open>now\<close> is the first reading and
  \<open>start\<close> the second.
\<close>

definition createRace ::
  "(string, LobbyPlayer) js_map \<Rightarrow> nat \<Rightarrow> nat \<Rightarrow> string \<Rightarrow> string \<Rightarrow> RaceGame" where
  "createRace ps now start challengerId acceptorId =
     new_RaceGame ps start (''race_'' @ decimal now) challengerId acceptorId"

text \<open>The handler of \<open>accept-challenge\<close> (lines 141 to 168), on the socket \<open>sid\<close>.\<close>

definition accept_challenge :: "string \<Rightarrow> string \<Rightarrow> nat \<Rightarrow> nat \<Rightarrow> Server \<Rightarrow> Server" where
  "accept_challenge sid challengerId now start st =
     (case (map_get (players st) sid, map_get (players st) challengerId) of
        (Some acceptor, Some challenger) \<Rightarrow>
          (let race = createRace (players st) now start (lobby_id challenger) (lobby_id acceptor)
           in st\<lparr>activeRaces := map_set (roomId race) race (activeRaces st),
                 players := map_delete (lobby_id acceptor)
                   (map_delete (lobby_id challenger) (players st))\<rparr>)
      | _ \<Rightarrow> st)"

text \<open>
  The handler of \<open>player-action\<close> (lines 179 to 201), on the socket \<open>sid\<close>, for a payload
  \<open>{roomId, action}\<close>. The session is mutated in place: it keeps its position in the map.
\<close>

definition player_action :: "string \<Rightarrow> string \<Rightarrow> string \<Rightarrow> Server \<Rightarrow> Server" where
  "player_action sid rid action st =
     (case map_get (activeRaces st) rid of
        None \<Rightarrow> st
      | Some race \<Rightarrow>
          (let (race', raceFinished) = handlePlayerAction race sid action;
               st' = st\<lparr>activeRaces := map_set rid race' (activeRaces st)\<rparr>
           in if raceFinished then st'\<lparr>timers := timers st' @ [(rid, race')]\<rparr> else st'))"

text \<open>The callback of \<open>setTimeout\<close> (lines 192 to 198), for the \<open>roomId\<close> and the session it holds.\<close>

definition cleanup :: "string \<Rightarrow> RaceGame \<Rightarrow> Server \<Rightarrow> Server" where
  "cleanup rid race st =
     st\<lparr>activeRaces := map_delete rid (activeRaces st),
        players :=
          map_set (id (player2 race))
            \<lparr>lobby_id = id (player2 race), lobby_username = username (player2 race)\<rparr>
            (map_set (id (player1 race))
               \<lparr>lobby_id = id (player1 race), lobby_username = username (player1 race)\<rparr>
               (players st))\<rparr>"

text \<open>The oldest scheduled cleanup fires.\<close>

definition timer_fires :: "Server \<Rightarrow> Server" where
  "timer_fires st =
     (case timers st of
        [] \<Rightarrow> st
      | (rid, race) # ts \<Rightarrow> cleanup rid race (st\<lparr>timers := ts\<rparr>))"

text \<open>
  The loop of lines 213 to 221: the first session, in the order of the map, that has the
  socket as one of its players.
\<close>

fun find_race :: "string \<Rightarrow> (string, RaceGame) js_map \<Rightarrow> string option" where
  "find_race sid [] = None"
| "find_race sid ((raceId, race) # m) =
     (if id (player1 race) = sid \<or> id (player2 race) = sid then Some raceId
      else find_race sid m)"

text \<open>The handler of \<open>disconnect\<close> (lines 204 to 222), on the socket \<open>sid\<close>.\<close>

definition disconnect :: "string \<Rightarrow> Server \<Rightarrow> Server" where
  "disconnect sid st =
     (let st' = (case map_get (players st) sid of
                   None \<Rightarrow> st
                 | Some player \<Rightarrow> st\<lparr>players := map_delete sid (players st)\<rparr>)
      in case find_race sid (activeRaces st') of
           None \<Rightarrow> st'
         | Some raceId \<Rightarrow> st'\<lparr>activeRaces := map_delete raceId (activeRaces st')\<rparr>)"

text \<open>
  The events that change the state, and a run of the server over a list of them.
  \<open>challenge-player\<close> and \<open>decline-challenge\<close> only emit.
\<close>

datatype event =
    JoinLobby string "string option"
  | AcceptChallenge string string nat nat
  | PlayerAction string string string
  | Disconnect string
  | TimerFires

fun handle :: "Server \<Rightarrow> event \<Rightarrow> Server" where
  "handle st (JoinLobby sid name) = join_lobby sid name st"
| "handle st (AcceptChallenge sid challengerId now start) =
     accept_challenge sid challengerId now start st"
| "handle st (PlayerAction sid rid action) = player_action sid rid action st"
| "handle st (Disconnect sid) = disconnect sid st"
| "handle st TimerFires = timer_fires st"

definition run :: "Server \<Rightarrow> event list \<Rightarrow> Server" where
  "run st evs = foldl handle st evs"

text \<open>Every entry the handlers store in the roster has its key as its id.\<close>

definition keyed :: "(string, LobbyPlayer) js_map \<Rightarrow> bool" where
  "keyed ps = list_all (\<lambda>(k, p). lobby_id p = k) ps"

section \<open>Example sessions\<close>

text \<open>A roster of two, and the session the two of them start at time \<open>0\<close>.\<close>

definition lobby2 :: "(string, LobbyPlayer) js_map" where
  "lobby2 = [(''a'', \<lparr>lobby_id = ''a'', lobby_username = Some ''Ann''\<rparr>),
             (''b'', \<lparr>lobby_id = ''b'', lobby_username = Some ''Bob''\<rparr>)]"

definition race_ab :: RaceGame where
  "race_ab = new_RaceGame lobby2 0 ''race_0'' ''a'' ''b''"

text \<open>The same session one \<open>accelerate\<close> of \<open>a\<close> before the finish line.\<close>

definition photo_finish :: RaceGame where
  "photo_finish = race_ab\<lparr>player1 := (player1 race_ab)\<lparr>progress := 998\<rparr>\<rparr>"

text \<open>A session whose two seats hold the same socket id: \<open>accept-challenge\<close> does not
  compare the acceptor with the challenger, so a socket can accept a challenge from its
  own id.\<close>

definition race_aa :: RaceGame where
  "race_aa = new_RaceGame lobby2 0 ''race_0'' ''a'' ''a''"

text \<open>Sessions in which \<open>a\<close> has little boost left, or is in a drift.\<close>

definition drained :: RaceGame where
  "drained = race_ab\<lparr>player1 := (player1 race_ab)\<lparr>boost := 10\<rparr>\<rparr>"

definition drifting :: RaceGame where
  "drifting = race_ab\<lparr>player1 := (player1 race_ab)\<lparr>boost := 40, isDrifting := True\<rparr>\<rparr>"


text \<open>
  The session of \<open>a\<close> and \<open>b\<close> after \<open>a\<close> has used the boost once, and after \<open>a\<close> has won it
  with \<open>500\<close> calls of \<open>accelerate\<close>.
\<close>

definition boosted :: RaceGame where
  "boosted = fst (handlePlayerAction race_ab ''a'' ''boost'')"

definition won_by_a :: RaceGame where
  "won_by_a = race_ab\<lparr>player1 := (player1 race_ab)\<lparr>progress := 1000\<rparr>,
                       finished := True, winner := Some ''a''\<rparr>"

text \<open>
  Runs of the server: two and four players in the lobby, and the race of \<open>a\<close> and \<open>b\<close>, started
  at time \<open>0\<close>, in which \<open>a\<close> accelerates \<open>500\<close> times.
\<close>

definition joined2 :: "event list" where
  "joined2 = [JoinLobby ''a'' (Some ''Ann''), JoinLobby ''b'' (Some ''Bob'')]"

definition joined4 :: "event list" where
  "joined4 = joined2 @ [JoinLobby ''c'' (Some ''Cat''), JoinLobby ''d'' (Some ''Dan'')]"

definition race_to_finish :: "event list" where
  "race_to_finish = joined2 @ [AcceptChallenge ''b'' ''a'' 0 0] @
     replicate 500 (PlayerAction ''a'' ''race_0'' ''accelerate'')"

section \<open>Properties of \<open>handlePlayerAction\<close>\<close>

lemmas ex_defs = photo_finish_def race_ab_def lobby2_def new_RaceGame_def new_player_def

lemmas hpa_defs = handlePlayerAction_def seat_of_def switch_action_def regenerate_def Let_def

subsection \<open>The finish transition\<close>

lemma handle_finished:
  "finished (fst (handlePlayerAction g pid a)) = (finished g \<or> snd (handlePlayerAction g pid a))"
  by (cases "seat_of g pid") (simp_all add: handlePlayerAction_def Let_def)

lemma handle_flag:
  "snd (handlePlayerAction g pid a) = (\<not> finished g \<and> finished (fst (handlePlayerAction g pid a)))"
  by (cases "seat_of g pid") (auto simp add: handlePlayerAction_def Let_def)

lemma handle_winner_kept:
  "finished g \<Longrightarrow> winner (fst (handlePlayerAction g pid a)) = winner g"
  by (cases "seat_of g pid") (simp_all add: handlePlayerAction_def Let_def)

lemma sessions_Nil: "sessions g [] = [g]"
  by (simp add: sessions_def)

lemma sessions_Cons:
  "sessions g ((pid, a) # cs) = g # sessions (fst (handlePlayerAction g pid a)) cs"
  by (simp add: sessions_def split: prod.split)

lemma length_run_actions: "length (run_actions g cs) = length cs"
  by (induction cs arbitrary: g) (auto split: prod.split)

lemma length_sessions: "length (sessions g cs) = Suc (length cs)"
  by (simp add: sessions_def length_run_actions)

lemma run_actions_Cons:
  "run_actions g ((pid, a) # cs) = handlePlayerAction g pid a # run_actions (fst (handlePlayerAction g pid a)) cs"
  by (simp split: prod.split)

lemma flag_is_transition:
  "i < length cs \<Longrightarrow>
     snd (run_actions g cs ! i) = (\<not> finished (sessions g cs ! i) \<and> finished (sessions g cs ! Suc i))"
proof (induction cs arbitrary: g i)
  case Nil
  then show ?case by simp
next
  case (Cons c cs)
  obtain pid a where c: "c = (pid, a)" by (cases c)
  show ?case
  proof (cases i)
    case 0
    have "sessions g (c # cs) ! Suc 0 = fst (handlePlayerAction g pid a)"
      by (simp add: c sessions_def split: prod.split)
    then show ?thesis using 0 handle_flag [of g pid a]
      by (simp add: c run_actions_Cons sessions_Cons del: run_actions.simps)
  next
    case (Suc j)
    then have "j < length cs" using Cons.prems by simp
    from Cons.IH [OF this, of "fst (handlePlayerAction g pid a)"] show ?thesis
      by (simp add: c Suc run_actions_Cons sessions_Cons del: run_actions.simps)
  qed
qed

lemma finished_sticky:
  "i < length cs \<Longrightarrow> finished (sessions g cs ! i) \<Longrightarrow>
     finished (sessions g cs ! Suc i) \<and> winner (sessions g cs ! Suc i) = winner (sessions g cs ! i)"
proof (induction cs arbitrary: g i)
  case Nil
  then show ?case by simp
next
  case (Cons c cs)
  obtain pid a where c: "c = (pid, a)" by (cases c)
  let ?g = "fst (handlePlayerAction g pid a)"
  show ?case
  proof (cases i)
    case 0
    have "sessions g (c # cs) ! Suc 0 = ?g"
      by (simp add: c sessions_def split: prod.split)
    moreover have "finished g" using Cons.prems 0 by (simp add: c sessions_Cons)
    ultimately show ?thesis using 0 handle_finished [of g pid a] handle_winner_kept [of g pid a]
      by (simp add: c sessions_Cons)
  next
    case (Suc j)
    then have "j < length cs" "finished (sessions ?g cs ! j)"
      using Cons.prems by (simp_all add: c sessions_Cons)
    from Cons.IH [OF this] show ?thesis
      by (simp add: c Suc sessions_Cons)
  qed
qed

lemma no_flag_after_finish:
  "finished g \<Longrightarrow> filter snd (run_actions g cs) = []"
proof (induction cs arbitrary: g)
  case Nil
  then show ?case by simp
next
  case (Cons c cs)
  obtain pid a where c: "c = (pid, a)" by (cases c)
  have "finished (fst (handlePlayerAction g pid a))" "\<not> snd (handlePlayerAction g pid a)"
    using Cons.prems handle_finished [of g pid a] handle_flag [of g pid a] by auto
  then show ?case using Cons.IH [of "fst (handlePlayerAction g pid a)"]
    by (simp add: c run_actions_Cons del: run_actions.simps)
qed

lemma at_most_one_flag: "length (filter snd (run_actions g cs)) \<le> 1"
proof (induction cs arbitrary: g)
  case Nil
  then show ?case by simp
next
  case (Cons c cs)
  obtain pid a where c: "c = (pid, a)" by (cases c)
  let ?g = "fst (handlePlayerAction g pid a)"
  show ?case
  proof (cases "snd (handlePlayerAction g pid a)")
    case True
    then have "finished ?g" using handle_finished [of g pid a] by simp
    then show ?thesis using True no_flag_after_finish [of ?g cs]
      by (simp add: c run_actions_Cons del: run_actions.simps)
  next
    case False
    then show ?thesis using Cons.IH [of ?g]
      by (simp add: c run_actions_Cons del: run_actions.simps)
  qed
qed

text \<open>
  C3: over any sequence of calls on any session, at most one call returns \<open>true\<close>; a call
  returns \<open>true\<close> exactly when \<open>finished\<close> was \<open>false\<close> before it and is \<open>true\<close> after it;
  and a call on a finished session leaves it finished, returns \<open>false\<close> and keeps \<open>winner\<close>.
  The method has no \<open>throw\<close> and calls nothing that throws: it is a total function here.
\<close>

theorem finish_transition_once:
  "length (filter snd (run_actions g cs)) \<le> 1 \<and>
   (\<forall>i<length cs.
      snd (run_actions g cs ! i) =
        (\<not> finished (sessions g cs ! i) \<and> finished (sessions g cs ! Suc i)) \<and>
      (finished (sessions g cs ! i) \<longrightarrow>
         finished (sessions g cs ! Suc i) \<and> \<not> snd (run_actions g cs ! i) \<and>
         winner (sessions g cs ! Suc i) = winner (sessions g cs ! i)))"
  using at_most_one_flag [of g cs] flag_is_transition [of _ cs g] finished_sticky [of _ cs g]
  by auto

theorem finish_transition_once_witness:
  "(1::nat) < length [(''a'', ''accelerate''), (''b'', ''boost''), (''a'', ''accelerate'')] \<and>
   finished (sessions photo_finish
     [(''a'', ''accelerate''), (''b'', ''boost''), (''a'', ''accelerate'')] ! 1) \<and>
   map snd (run_actions photo_finish
     [(''a'', ''accelerate''), (''b'', ''boost''), (''a'', ''accelerate'')])
     = [True, False, False] \<and>
   map winner (sessions photo_finish
     [(''a'', ''accelerate''), (''b'', ''boost''), (''a'', ''accelerate'')])
     = [None, Some ''a'', Some ''a'', Some ''a'']"
  using finish_transition_once [of photo_finish
      "[(''a'', ''accelerate''), (''b'', ''boost''), (''a'', ''accelerate'')]"]
  by (simp add: sessions_def ex_defs hpa_defs)

subsection \<open>The boost gauge\<close>

lemma switch_boost_range:
  "0 \<le> boost p \<Longrightarrow> boost p \<le> 100 \<Longrightarrow>
     0 \<le> boost (switch_action a p) \<and> boost (switch_action a p) \<le> 100"
  by (simp add: switch_action_def)

lemma regenerate_boost_range:
  "0 \<le> boost p \<Longrightarrow> boost p \<le> 100 \<Longrightarrow>
     0 \<le> boost (regenerate p) \<and> boost (regenerate p) \<le> 100"
  by (simp add: regenerate_def)

lemma handle_boost_in_range:
  assumes "boost_in_range g"
  shows "boost_in_range (fst (handlePlayerAction g pid a))"
proof (cases "seat_of g pid")
  case Seat1
  have "0 \<le> boost (player1 g)" "boost (player1 g) \<le> 100"
    using assms by (simp_all add: boost_in_range_def)
  from regenerate_boost_range [OF switch_boost_range [OF this, THEN conjunct1]
      switch_boost_range [OF this, THEN conjunct2], of a]
  show ?thesis using assms Seat1
    by (simp add: handlePlayerAction_def Let_def boost_in_range_def)
next
  case Seat2
  have "0 \<le> boost (player2 g)" "boost (player2 g) \<le> 100"
    using assms by (simp_all add: boost_in_range_def)
  from regenerate_boost_range [OF switch_boost_range [OF this, THEN conjunct1]
      switch_boost_range [OF this, THEN conjunct2], of a]
  show ?thesis using assms Seat2
    by (simp add: handlePlayerAction_def Let_def boost_in_range_def)
qed

lemma new_RaceGame_boost_in_range: "boost_in_range (new_RaceGame ps now rid p1 p2)"
  by (simp add: boost_in_range_def new_RaceGame_def new_player_def)

lemma sessions_boost_in_range:
  "boost_in_range g \<Longrightarrow> g' \<in> set (sessions g cs) \<Longrightarrow> boost_in_range g'"
proof (induction cs arbitrary: g)
  case Nil
  then show ?case by (simp add: sessions_Nil)
next
  case (Cons c cs)
  obtain pid a where c: "c = (pid, a)" by (cases c)
  from Cons.prems(2) have "g' = g \<or> g' \<in> set (sessions (fst (handlePlayerAction g pid a)) cs)"
    by (simp add: c sessions_Cons)
  then show ?case
    using Cons.prems(1) Cons.IH [OF handle_boost_in_range [OF Cons.prems(1)]] by blast
qed

text \<open>
  C4: from construction, after every call of every sequence of calls, with any actions and
  any player ids, the boost of each of the two players lies between \<open>0\<close> and \<open>100\<close>.
\<close>

theorem boost_always_in_range:
  "\<forall>g \<in> set (sessions (new_RaceGame ps now rid player1Id player2Id) cs).
     0 \<le> boost (player1 g) \<and> boost (player1 g) \<le> 100 \<and>
     0 \<le> boost (player2 g) \<and> boost (player2 g) \<le> 100"
  using sessions_boost_in_range [OF new_RaceGame_boost_in_range]
  by (auto simp add: boost_in_range_def)

theorem boost_always_in_range_witness:
  "last (sessions race_ab [(''a'', ''boost''), (''a'', ''boost''), (''c'', ''boost''), (''a'', ''drift-end'')])
     \<in> set (sessions race_ab [(''a'', ''boost''), (''a'', ''boost''), (''c'', ''boost''), (''a'', ''drift-end'')]) \<and>
   boost (player1 (last (sessions race_ab
     [(''a'', ''boost''), (''a'', ''boost''), (''c'', ''boost''), (''a'', ''drift-end'')]))) = 153 / 2 \<and>
   (0::rat) \<le> 153 / 2 \<and> (153 / 2 :: rat) \<le> 100"
  using boost_always_in_range [of lobby2 0 "''race_0''" "''a''" "''b''"
      "[(''a'', ''boost''), (''a'', ''boost''), (''c'', ''boost''), (''a'', ''drift-end'')]"]
  by (simp add: sessions_def ex_defs hpa_defs)

subsection \<open>The acting player\<close>

lemma seat_get_put: "seat_get s (seat_put s p g) = p"
  by (cases s) simp_all

lemma seat_get_handle:
  "seat_get (seat_of g pid) (fst (handlePlayerAction g pid a))
     = regenerate (switch_action a (seat_get (seat_of g pid) g))"
  by (cases "seat_of g pid") (simp_all add: handlePlayerAction_def Let_def)

lemma seat_of_id:
  "pid = id (player1 g) \<or> pid = id (player2 g) \<Longrightarrow> id (seat_get (seat_of g pid) g) = pid"
  by (auto simp add: seat_of_def)

text \<open>
  C5: for a player of the session, \<open>p\<close> being the record line 51 resolves the id to (the first
  seat when both seats hold that id): with \<open>boost \<ge> 20\<close> the \<open>boost\<close> branch takes exactly
  \<open>20\<close> boost and adds exactly \<open>10\<close> progress, and the regeneration then runs on the result;
  with \<open>boost < 20\<close> the branch changes nothing, so that only the regeneration acts.
\<close>

theorem boost_action_effect:
  assumes "playerId = id (player1 g) \<or> playerId = id (player2 g)"
    and "p = seat_get (seat_of g playerId) g"
    and "p' = seat_get (seat_of g playerId) (fst (handlePlayerAction g playerId ''boost''))"
  shows "id p = playerId \<and>
    (boost p \<ge> 20 \<longrightarrow>
       switch_action ''boost'' p = p\<lparr>boost := boost p - 20, progress := progress p + 10\<rparr> \<and>
       progress p' = progress p + 10 \<and>
       boost p' = (if isDrifting p then boost p - 20 else min 100 (boost p - 20 + 1 / 2))) \<and>
    (boost p < 20 \<longrightarrow>
       switch_action ''boost'' p = p \<and>
       progress p' = progress p \<and>
       boost p' = (if isDrifting p then boost p else min 100 (boost p + 1 / 2))) \<and>
    isDrifting p' = isDrifting p \<and> id p' = id p \<and> username p' = username p"
  using assms(1) seat_of_id [of playerId g]
  unfolding assms(2,3) seat_get_handle
  by (simp add: switch_action_def regenerate_def)

theorem boost_action_effect_witness:
  "''a'' = id (player1 race_ab) \<and> boost (player1 race_ab) = 100 \<and> (20::rat) \<le> 100 \<and>
   progress (player1 (fst (handlePlayerAction race_ab ''a'' ''boost''))) = 10 \<and>
   boost (player1 (fst (handlePlayerAction race_ab ''a'' ''boost''))) = 161 / 2 \<and>
   ''a'' = id (player1 drained) \<and> boost (player1 drained) = 10 \<and> (10::rat) < 20 \<and>
   progress (player1 (fst (handlePlayerAction drained ''a'' ''boost''))) = 0 \<and>
   boost (player1 (fst (handlePlayerAction drained ''a'' ''boost''))) = 21 / 2"
  using boost_action_effect [OF _ refl refl, where playerId = "''a''" and g = race_ab]
    boost_action_effect [OF _ refl refl, where playerId = "''a''" and g = drained]
  by (simp add: drained_def ex_defs seat_of_def)

text \<open>
  C6: for a player of the session, \<open>q\<close> being the acting player's record after the \<open>switch\<close>:
  the call adds a half to the boost, capped at \<open>100\<close>, when \<open>q\<close> is not drifting and leaves
  the boost of \<open>q\<close> as it is when \<open>q\<close> is drifting. \<open>drift-start\<close> leaves the player drifting,
  hence with the boost unchanged; \<open>drift-end\<close> clears the flag, adds \<open>15\<close> capped at \<open>100\<close>,
  and then the half, capped again.
\<close>

theorem drift_end_and_regen:
  assumes "playerId = id (player1 g) \<or> playerId = id (player2 g)"
    and "p = seat_get (seat_of g playerId) g"
    and "q = switch_action action p"
    and "p' = seat_get (seat_of g playerId) (fst (handlePlayerAction g playerId action))"
  shows "id p = playerId \<and>
    boost p' = (if isDrifting q then boost q else min 100 (boost q + 1 / 2)) \<and>
    isDrifting p' = isDrifting q \<and> progress p' = progress q \<and>
    (action = ''drift-start'' \<longrightarrow> isDrifting q \<and> boost p' = boost p) \<and>
    (action = ''drift-end'' \<longrightarrow>
       \<not> isDrifting q \<and> boost q = min 100 (boost p + 15) \<and> progress q = progress p \<and>
       \<not> isDrifting p' \<and> boost p' = min 100 (min 100 (boost p + 15) + 1 / 2))"
  using assms(1) seat_of_id [of playerId g]
  unfolding assms(2,3,4) seat_get_handle
  by (simp add: switch_action_def regenerate_def)

theorem drift_end_and_regen_witness:
  "''a'' = id (player1 drifting) \<and> boost (player1 drifting) = 40 \<and>
   isDrifting (player1 drifting) \<and>
   boost (player1 (fst (handlePlayerAction drifting ''a'' ''drift-end''))) = 111 / 2 \<and>
   \<not> isDrifting (player1 (fst (handlePlayerAction drifting ''a'' ''drift-end''))) \<and>
   boost (player1 (fst (handlePlayerAction drifting ''a'' ''accelerate''))) = 40 \<and>
   ''a'' = id (player1 drained) \<and> boost (player1 drained) = 10 \<and>
   isDrifting (player1 (fst (handlePlayerAction drained ''a'' ''drift-start''))) \<and>
   boost (player1 (fst (handlePlayerAction drained ''a'' ''drift-start''))) = 10"
  using drift_end_and_regen [OF _ refl refl refl, where playerId = "''a''" and g = drifting
      and action = "''drift-end''"]
    drift_end_and_regen [OF _ refl refl refl, where playerId = "''a''" and g = drifting
      and action = "''accelerate''"]
    drift_end_and_regen [OF _ refl refl refl, where playerId = "''a''" and g = drained
      and action = "''drift-start''"]
  by (simp add: drifting_def drained_def ex_defs seat_of_def switch_action_def)

subsection \<open>What a call leaves alone\<close>

text \<open>No call assigns the id or the username of a player.\<close>

lemma switch_keeps_identity:
  "id (switch_action a p) = id p \<and> username (switch_action a p) = username p"
  by (simp add: switch_action_def)

lemma regenerate_keeps_identity:
  "id (regenerate p) = id p \<and> username (regenerate p) = username p"
  by (simp add: regenerate_def)

lemma handle_keeps_identity:
  "id (player1 (fst (handlePlayerAction g pid a))) = id (player1 g) \<and>
   username (player1 (fst (handlePlayerAction g pid a))) = username (player1 g) \<and>
   id (player2 (fst (handlePlayerAction g pid a))) = id (player2 g) \<and>
   username (player2 (fst (handlePlayerAction g pid a))) = username (player2 g)"
  by (cases "seat_of g pid")
    (simp_all add: handlePlayerAction_def Let_def switch_keeps_identity regenerate_keeps_identity)

text \<open>
  C9, as the code has it: a call with the id of the first player leaves the record of the
  second unchanged; a call with the id of the second leaves the record of the first
  unchanged when the two ids differ; no call changes \<open>roomId\<close> or \<open>startTime\<close>.
\<close>

theorem frame_other_player:
  assumes "g' = fst (handlePlayerAction g playerId action)"
  shows "(playerId = id (player1 g) \<longrightarrow> player2 g' = player2 g) \<and>
    (playerId = id (player2 g) \<and> id (player1 g) \<noteq> id (player2 g) \<longrightarrow> player1 g' = player1 g) \<and>
    roomId g' = roomId g \<and> startTime g' = startTime g"
  unfolding assms by (simp add: handlePlayerAction_def seat_of_def Let_def)

theorem frame_other_player_witness:
  "''b'' = id (player2 race_ab) \<and> id (player1 race_ab) \<noteq> id (player2 race_ab) \<and>
   player1 (fst (handlePlayerAction race_ab ''b'' ''accelerate'')) = player1 race_ab \<and>
   ''a'' = id (player1 race_ab) \<and>
   player2 (fst (handlePlayerAction race_ab ''a'' ''boost'')) = player2 race_ab"
  using frame_other_player [OF refl, where g = race_ab and playerId = "''b''" and action = "''accelerate''"]
    frame_other_player [OF refl, where g = race_ab and playerId = "''a''" and action = "''boost''"]
  by (simp add: ex_defs)

text \<open>
  C9 as stated fails on a session whose two seats hold one id: line 51 resolves the id of
  the second player to the first record, and \<open>accelerate\<close> moves its progress from \<open>0\<close> to \<open>2\<close>.
\<close>

theorem frame_other_player_counterexample:
  "''a'' = id (player2 race_aa) \<and>
   player1 (fst (handlePlayerAction race_aa ''a'' ''accelerate'')) \<noteq> player1 race_aa \<and>
   progress (player1 race_aa) = 0 \<and>
   progress (player1 (fst (handlePlayerAction race_aa ''a'' ''accelerate''))) = 2"
  by (simp add: race_aa_def ex_defs hpa_defs)

subsection \<open>Calls with the id of neither player\<close>

text \<open>
  C1: the specification asks that such a call change nothing. Line 51 falls to \<open>player2\<close>
  for every id that is not the first player's, so the call acts on the second player: here
  \<open>c\<close>, who is in neither seat of the session of \<open>a\<close> and \<open>b\<close>, accelerates \<open>b\<close>.
\<close>

theorem outsider_action_moves_player2:
  "''c'' \<noteq> id (player1 race_ab) \<and> ''c'' \<noteq> id (player2 race_ab) \<and>
   handlePlayerAction race_ab ''c'' ''accelerate''
     = (race_ab\<lparr>player2 := (player2 race_ab)\<lparr>progress := 2\<rparr>\<rparr>, False) \<and>
   fst (handlePlayerAction race_ab ''c'' ''accelerate'') \<noteq> race_ab"
  by (simp add: ex_defs hpa_defs)

lemma last_sessions_Cons:
  "last (sessions g ((pid, a) # cs)) = last (sessions (fst (handlePlayerAction g pid a)) cs)"
  by (simp add: sessions_Cons) (simp add: sessions_def)

lemma accelerate_player2:
  assumes "id (player1 g) \<noteq> pid" "\<not> finished g" "\<not> isDrifting (player2 g)"
    "boost (player2 g) = 100" "progress (player2 g) + 2 < 1000"
  shows "fst (handlePlayerAction g pid ''accelerate'')
    = g\<lparr>player2 := (player2 g)\<lparr>progress := progress (player2 g) + 2\<rparr>\<rparr>"
  using assms by (simp add: hpa_defs)

lemma accelerate_player2_run:
  "id (player1 g) \<noteq> pid \<Longrightarrow> \<not> finished g \<Longrightarrow> \<not> isDrifting (player2 g) \<Longrightarrow>
   boost (player2 g) = 100 \<Longrightarrow> progress (player2 g) + 2 * of_nat n < 1000 \<Longrightarrow>
   last (sessions g (replicate n (pid, ''accelerate'')))
     = g\<lparr>player2 := (player2 g)\<lparr>progress := progress (player2 g) + 2 * of_nat n\<rparr>\<rparr>"
proof (induction n arbitrary: g)
  case 0
  then show ?case by (simp add: sessions_Nil)
next
  case (Suc n)
  let ?g = "g\<lparr>player2 := (player2 g)\<lparr>progress := progress (player2 g) + 2\<rparr>\<rparr>"
  have step: "fst (handlePlayerAction g pid ''accelerate'') = ?g"
    using Suc.prems by (intro accelerate_player2) simp_all
  have "last (sessions ?g (replicate n (pid, ''accelerate'')))
     = ?g\<lparr>player2 := (player2 ?g)\<lparr>progress := progress (player2 ?g) + 2 * of_nat n\<rparr>\<rparr>"
    using Suc.prems by (intro Suc.IH) (simp_all add: algebra_simps)
  then show ?case
    by (simp add: last_sessions_Cons step algebra_simps)
qed

lemma last_sessions_append:
  "last (sessions g (cs @ ds)) = last (sessions (last (sessions g cs)) ds)"
proof (induction cs arbitrary: g)
  case Nil
  then show ?case by (simp add: sessions_Nil)
next
  case (Cons c cs)
  obtain pid a where c: "c = (pid, a)" by (cases c)
  show ?case using Cons.IH [of "fst (handlePlayerAction g pid a)"]
    by (simp add: c last_sessions_Cons)
qed

lemma outsider_499:
  "last (sessions race_ab (replicate 499 (''c'', ''accelerate'')))
     = race_ab\<lparr>player2 := (player2 race_ab)\<lparr>progress := 998\<rparr>\<rparr>"
  using accelerate_player2_run [of race_ab "''c''" 499] by (simp add: ex_defs)

text \<open>
  C2: the specification asks that the winner of a finished session be one of its two
  players. After \<open>500\<close> calls of \<open>accelerate\<close> with the id \<open>c\<close> on the new session of \<open>a\<close> and
  \<open>b\<close>, the session is finished and its winner is \<open>c\<close>.
\<close>

theorem outsider_wins:
  "''c'' \<noteq> id (player1 race_ab) \<and> ''c'' \<noteq> id (player2 race_ab) \<and>
   finished (last (sessions race_ab (replicate 500 (''c'', ''accelerate'')))) \<and>
   winner (last (sessions race_ab (replicate 500 (''c'', ''accelerate'')))) = Some ''c''"
proof -
  have "(500::nat) = Suc 499" by simp
  then have "replicate 500 (''c'', ''accelerate'') = replicate 499 (''c'', ''accelerate'') @ [(''c'', ''accelerate'')]"
    by (simp only: replicate_Suc replicate_append_same)
  then have "last (sessions race_ab (replicate 500 (''c'', ''accelerate'')))
    = last (sessions (race_ab\<lparr>player2 := (player2 race_ab)\<lparr>progress := 998\<rparr>\<rparr>) [(''c'', ''accelerate'')])"
    by (simp only: last_sessions_append outsider_499)
  then show ?thesis
    by (simp add: sessions_def ex_defs hpa_defs)
qed

subsection \<open>Actions the \<open>switch\<close> does not know\<close>

text \<open>
  From construction, a session that is not finished has both players below the finish line,
  whoever made the calls: the winner check runs on the record every call writes to.
\<close>

lemma handle_below_line:
  assumes "\<not> finished g \<longrightarrow> progress (player1 g) < 1000 \<and> progress (player2 g) < 1000"
    and "g' = fst (handlePlayerAction g pid a)"
  shows "\<not> finished g' \<longrightarrow> progress (player1 g') < 1000 \<and> progress (player2 g') < 1000"
  using assms(1) unfolding assms(2)
  by (cases "seat_of g pid") (auto simp add: handlePlayerAction_def Let_def)

lemma sessions_below_line:
  "\<not> finished g \<longrightarrow> progress (player1 g) < 1000 \<and> progress (player2 g) < 1000 \<Longrightarrow>
   g' \<in> set (sessions g cs) \<Longrightarrow>
   \<not> finished g' \<longrightarrow> progress (player1 g') < 1000 \<and> progress (player2 g') < 1000"
proof (induction cs arbitrary: g)
  case Nil
  then show ?case by (simp add: sessions_Nil)
next
  case (Cons c cs)
  obtain pid a where c: "c = (pid, a)" by (cases c)
  from Cons.prems(2) have "g' = g \<or> g' \<in> set (sessions (fst (handlePlayerAction g pid a)) cs)"
    by (simp add: c sessions_Cons)
  then show ?case
    using Cons.prems(1) Cons.IH [OF handle_below_line [OF Cons.prems(1) refl]] by blast
qed

lemma unfinished_below_line:
  "g \<in> set (sessions (new_RaceGame ps now rid p1 p2) cs) \<Longrightarrow> \<not> finished g \<Longrightarrow>
   progress (player1 g) < 1000 \<and> progress (player2 g) < 1000"
  using sessions_below_line [of "new_RaceGame ps now rid p1 p2" g cs]
  by (simp add: new_RaceGame_def new_player_def)

lemma accelerate_player1:
  assumes "id (player1 g) = pid" "\<not> finished g" "\<not> isDrifting (player1 g)"
    "boost (player1 g) = 100" "progress (player1 g) + 2 < 1000"
  shows "handlePlayerAction g pid ''accelerate''
    = (g\<lparr>player1 := (player1 g)\<lparr>progress := progress (player1 g) + 2\<rparr>\<rparr>, False)"
  using assms by (simp add: hpa_defs)

lemma accelerate_player1_run:
  "id (player1 g) = pid \<Longrightarrow> \<not> finished g \<Longrightarrow> \<not> isDrifting (player1 g) \<Longrightarrow>
   boost (player1 g) = 100 \<Longrightarrow> progress (player1 g) + 2 * of_nat n < 1000 \<Longrightarrow>
   last (sessions g (replicate n (pid, ''accelerate'')))
     = g\<lparr>player1 := (player1 g)\<lparr>progress := progress (player1 g) + 2 * of_nat n\<rparr>\<rparr>"
proof (induction n arbitrary: g)
  case 0
  then show ?case by (simp add: sessions_Nil)
next
  case (Suc n)
  let ?g = "g\<lparr>player1 := (player1 g)\<lparr>progress := progress (player1 g) + 2\<rparr>\<rparr>"
  have "handlePlayerAction g pid ''accelerate'' = (?g, False)"
    using Suc.prems by (intro accelerate_player1) simp_all
  then have step: "fst (handlePlayerAction g pid ''accelerate'') = ?g"
    by simp
  have "last (sessions ?g (replicate n (pid, ''accelerate'')))
     = ?g\<lparr>player1 := (player1 ?g)\<lparr>progress := progress (player1 ?g) + 2 * of_nat n\<rparr>\<rparr>"
    using Suc.prems by (intro Suc.IH) (simp_all add: algebra_simps)
  then show ?case
    by (simp add: last_sessions_Cons step algebra_simps)
qed

lemma won_by_a_last:
  "last (sessions race_ab (replicate 500 (''a'', ''accelerate''))) = won_by_a"
proof -
  have "(500::nat) = Suc 499" by simp
  then have "replicate 500 (''a'', ''accelerate'')
      = replicate 499 (''a'', ''accelerate'') @ [(''a'', ''accelerate'')]"
    by (simp only: replicate_Suc replicate_append_same)
  moreover have "last (sessions race_ab (replicate 499 (''a'', ''accelerate''))) = photo_finish"
    using accelerate_player1_run [of race_ab "''a''" 499] by (simp add: ex_defs)
  ultimately have "last (sessions race_ab (replicate 500 (''a'', ''accelerate'')))
      = last (sessions photo_finish [(''a'', ''accelerate'')])"
    by (simp only: last_sessions_append)
  then show ?thesis
    by (simp add: sessions_def won_by_a_def ex_defs hpa_defs)
qed

lemma won_by_a_reached:
  "won_by_a \<in> set (sessions race_ab (replicate 500 (''a'', ''accelerate'')))"
proof -
  have "sessions race_ab (replicate 500 (''a'', ''accelerate'')) \<noteq> []"
    by (simp add: sessions_def)
  from last_in_set [OF this] show ?thesis
    by (simp only: won_by_a_last)
qed

lemma boosted_reached: "boosted \<in> set (sessions race_ab [(''a'', ''boost'')])"
  by (simp add: sessions_def boosted_def split: prod.split)

lemma seat_put_get: "seat_put s (seat_get s g) g = g"
  by (cases s) simp_all

lemma unknown_action_call:
  assumes "action \<notin> {''accelerate'', ''boost'', ''drift-start'', ''drift-end''}"
    and "p = seat_get (seat_of g playerId) g"
  shows "handlePlayerAction g playerId action =
    (if progress p \<ge> 1000 \<and> \<not> finished g
     then ((seat_put (seat_of g playerId) (regenerate p) g)\<lparr>finished := True,
            winner := Some playerId\<rparr>, True)
     else (seat_put (seat_of g playerId) (regenerate p) g, False))"
proof -
  have sw: "switch_action action p = p"
    using assms(1) by (simp add: switch_action_def)
  have "progress (regenerate p) = progress p"
    by (simp add: regenerate_def)
  then show ?thesis
    unfolding handlePlayerAction_def Let_def assms(2) [symmetric] sw by simp
qed

lemma regenerate_fixed: "regenerate p = p \<longleftrightarrow> isDrifting p \<or> boost p = 100"
proof
  assume "regenerate p = p"
  then have "boost (regenerate p) = boost p" by simp
  then show "isDrifting p \<or> boost p = 100"
    by (simp add: regenerate_def min_def split: if_splits)
next
  assume "isDrifting p \<or> boost p = 100"
  then show "regenerate p = p"
    by (auto simp add: regenerate_def)
qed

text \<open>
  C10, as the code has it: a call of a player of the session with an action that is none of
  the four skips the \<open>switch\<close>, still regenerates the boost of a player who is not drifting,
  and still runs the winner check, which returns \<open>true\<close> and sets \<open>finished\<close> and \<open>winner\<close> exactly
  when the player's progress is at least \<open>1000\<close> and the session is not finished. The call
  leaves the session as it was exactly when the player is drifting or has \<open>100\<close> boost and
  the winner check does not fire. On a session that calls of \<open>handlePlayerAction\<close> have led
  to from construction, the winner check never fires for such an action: the call returns
  \<open>false\<close> and keeps \<open>finished\<close> and \<open>winner\<close>.
\<close>

theorem unknown_action_effect:
  assumes "action \<notin> {''accelerate'', ''boost'', ''drift-start'', ''drift-end''}"
    and "playerId = id (player1 g) \<or> playerId = id (player2 g)"
    and "p = seat_get (seat_of g playerId) g"
    and "g' = fst (handlePlayerAction g playerId action)"
  shows "id p = playerId \<and> switch_action action p = p \<and>
    seat_get (seat_of g playerId) g' =
      (if isDrifting p then p else p\<lparr>boost := min 100 (boost p + 1 / 2)\<rparr>) \<and>
    snd (handlePlayerAction g playerId action) = (progress p \<ge> 1000 \<and> \<not> finished g) \<and>
    finished g' = (finished g \<or> progress p \<ge> 1000) \<and>
    winner g' = (if progress p \<ge> 1000 \<and> \<not> finished g then Some playerId else winner g) \<and>
    (\<not> isDrifting p \<and> boost p < 100 \<longrightarrow> g' \<noteq> g) \<and>
    (g' = g \<longleftrightarrow> (isDrifting p \<or> boost p = 100) \<and> (progress p < 1000 \<or> finished g)) \<and>
    (g \<in> set (sessions (new_RaceGame ps now rid player1Id player2Id) cs) \<longrightarrow>
       \<not> snd (handlePlayerAction g playerId action) \<and>
       finished g' = finished g \<and> winner g' = winner g)"
proof -
  note call = unknown_action_call [OF assms(1,3)]
  have sw: "switch_action action p = p"
    using assms(1) by (simp add: switch_action_def)
  have idp: "id p = playerId"
    using seat_of_id [OF assms(2)] by (simp add: assms(3))
  have got: "seat_get (seat_of g playerId) g' = regenerate p"
    unfolding assms(4) seat_get_handle using sw by (simp add: assms(3))
  have ret: "snd (handlePlayerAction g playerId action) = (progress p \<ge> 1000 \<and> \<not> finished g)"
    by (simp add: call)
  have fin: "finished g' = (finished g \<or> progress p \<ge> 1000)"
    using handle_finished [of g playerId action] ret by (auto simp add: assms(4))
  have win: "winner g' = (if progress p \<ge> 1000 \<and> \<not> finished g then Some playerId else winner g)"
    by (cases "seat_of g playerId") (simp_all add: assms(4) call)
  have same: "g' = g \<longleftrightarrow> (isDrifting p \<or> boost p = 100) \<and> (progress p < 1000 \<or> finished g)"
  proof
    assume eq: "g' = g"
    then have "regenerate p = p" using got by (simp add: assms(3))
    moreover have "progress p < 1000 \<or> finished g" using fin eq by auto
    ultimately show "(isDrifting p \<or> boost p = 100) \<and> (progress p < 1000 \<or> finished g)"
      by (simp add: regenerate_fixed)
  next
    assume "(isDrifting p \<or> boost p = 100) \<and> (progress p < 1000 \<or> finished g)"
    then have r: "regenerate p = p" and nf: "\<not> (progress p \<ge> 1000 \<and> \<not> finished g)"
      by (auto simp add: regenerate_fixed)
    have "handlePlayerAction g playerId action = (seat_put (seat_of g playerId) p g, False)"
      using nf by (simp only: call r if_False)
    then show "g' = g"
      by (simp add: assms(3,4) seat_put_get)
  qed
  have neq: "g' \<noteq> g" if "\<not> isDrifting p" "boost p < 100"
    using that same by simp
  have reach: "\<not> snd (handlePlayerAction g playerId action) \<and>
      finished g' = finished g \<and> winner g' = winner g"
    if "g \<in> set (sessions (new_RaceGame ps now rid player1Id player2Id) cs)"
  proof -
    have "\<not> finished g \<longrightarrow> progress p < 1000"
      using unfinished_below_line [OF that]
      by (cases "seat_of g playerId") (simp_all add: assms(3))
    then have "\<not> (progress p \<ge> 1000 \<and> \<not> finished g)" by auto
    then show ?thesis using ret fin win by auto
  qed
  show ?thesis using sw idp got ret fin win neq same reach by (simp add: regenerate_def)
qed

theorem unknown_action_effect_witness:
  "''honk'' \<notin> {''accelerate'', ''boost'', ''drift-start'', ''drift-end''} \<and>
   ''a'' = id (player1 boosted) \<and>
   boosted \<in> set (sessions race_ab [(''a'', ''boost'')]) \<and>
   \<not> isDrifting (player1 boosted) \<and> boost (player1 boosted) = 161 / 2 \<and>
   boost (player1 (fst (handlePlayerAction boosted ''a'' ''honk''))) = 81 \<and>
   \<not> snd (handlePlayerAction boosted ''a'' ''honk'') \<and>
   fst (handlePlayerAction boosted ''a'' ''honk'') \<noteq> boosted \<and>
   ''a'' = id (player1 won_by_a) \<and>
   won_by_a \<in> set (sessions race_ab (replicate 500 (''a'', ''accelerate''))) \<and>
   progress (player1 won_by_a) = 1000 \<and> boost (player1 won_by_a) = 100 \<and> finished won_by_a \<and>
   \<not> snd (handlePlayerAction won_by_a ''a'' ''honk'') \<and>
   fst (handlePlayerAction won_by_a ''a'' ''honk'') = won_by_a"
  using unknown_action_effect [OF _ _ refl refl, where action = "''honk''" and playerId = "''a''"
      and g = boosted and ps = lobby2 and now = 0 and rid = "''race_0''" and player1Id = "''a''"
      and player2Id = "''b''" and cs = "[(''a'', ''boost'')]"]
    unknown_action_effect [OF _ _ refl refl, where action = "''honk''" and playerId = "''a''"
      and g = won_by_a and ps = lobby2 and now = 0 and rid = "''race_0''" and player1Id = "''a''"
      and player2Id = "''b''" and cs = "replicate 500 (''a'', ''accelerate'')"]
    boosted_reached won_by_a_reached
  unfolding race_ab_def [symmetric]
  by (simp add: boosted_def won_by_a_def ex_defs hpa_defs)

text \<open>
  C10 as stated fails on sessions the program reaches. On the new session of \<open>a\<close> and \<open>b\<close>, where
  the boost is \<open>100\<close>, the call of \<open>a\<close> with the unknown action \<open>honk\<close> changes nothing at all.
  On the session \<open>a\<close> has won, where the progress of \<open>a\<close> is \<open>1000\<close>, the same call returns \<open>false\<close>
  and changes nothing.
\<close>

theorem unknown_action_effect_counterexample:
  "''a'' = id (player1 race_ab) \<and>
   handlePlayerAction race_ab ''a'' ''honk'' = (race_ab, False) \<and>
   ''a'' = id (player1 won_by_a) \<and> 1000 \<le> progress (player1 won_by_a) \<and>
   handlePlayerAction won_by_a ''a'' ''honk'' = (won_by_a, False)"
  by (simp add: won_by_a_def ex_defs hpa_defs)

section \<open>Properties of the handlers\<close>

subsection \<open>Room ids\<close>

lemma digit_inj: "a < 10 \<Longrightarrow> b < 10 \<Longrightarrow> digit a = digit b \<Longrightarrow> a = b"
  using nth_eq_iff_index_eq [of "''0123456789''" a b] by (simp add: digit_def)

lemma decimal_small: "n < 10 \<Longrightarrow> decimal n = [digit n]"
  by (subst decimal.simps) simp

lemma decimal_large: "\<not> n < 10 \<Longrightarrow> decimal n = decimal (n div 10) @ [digit (n mod 10)]"
  by (subst decimal.simps) simp

lemma decimal_nonempty: "decimal n \<noteq> []"
  by (cases "n < 10") (simp_all add: decimal_small decimal_large)

lemma decimal_inj: "decimal m = decimal n \<Longrightarrow> m = n"
proof (induction m arbitrary: n rule: decimal.induct)
  case (1 m)
  show ?case
  proof (cases "m < 10")
    case small: True
    have "n < 10"
    proof (rule ccontr)
      assume "\<not> n < 10"
      then have "[digit m] = decimal (n div 10) @ [digit (n mod 10)]"
        using "1.prems" small by (simp add: decimal_small decimal_large)
      then show False using decimal_nonempty [of "n div 10"] by simp
    qed
    then show ?thesis using "1.prems" small digit_inj [of m n]
      by (simp add: decimal_small)
  next
    case large: False
    have n: "\<not> n < 10"
    proof
      assume "n < 10"
      then have "decimal (m div 10) @ [digit (m mod 10)] = [digit n]"
        using "1.prems" large by (simp add: decimal_small decimal_large)
      then show False using decimal_nonempty [of "m div 10"] by simp
    qed
    then have "decimal (m div 10) @ [digit (m mod 10)] = decimal (n div 10) @ [digit (n mod 10)]"
      using "1.prems" large by (simp add: decimal_large)
    then have "decimal (m div 10) = decimal (n div 10)" "digit (m mod 10) = digit (n mod 10)"
      by simp_all
    then have "m div 10 = n div 10" "m mod 10 = n mod 10"
      using "1.IH" [OF large] digit_inj [of "m mod 10" "n mod 10"] by simp_all
    then show ?thesis by (metis div_mult_mod_eq)
  qed
qed

lemma room_id_inj:
  "roomId (createRace ps now start c a) = roomId (createRace ps' now' start' c' a') \<longleftrightarrow> now = now'"
  by (auto simp add: createRace_def new_RaceGame_def dest: decimal_inj)

subsection \<open>The roster\<close>

lemma keyed_map_set: "keyed ps \<Longrightarrow> lobby_id p = k \<Longrightarrow> keyed (map_set k p ps)"
  by (induction ps) (auto simp add: keyed_def)

lemma keyed_map_delete: "keyed ps \<Longrightarrow> keyed (map_delete k ps)"
  by (induction ps) (auto simp add: keyed_def)

lemma keyed_map_get: "keyed ps \<Longrightarrow> map_get ps k = Some p \<Longrightarrow> lobby_id p = k"
  by (induction ps) (auto simp add: keyed_def split: if_splits)

lemma keyed_handle: "keyed (players st) \<Longrightarrow> keyed (players (handle st ev))"
proof (cases ev)
  case (JoinLobby sid name)
  then show "keyed (players st) \<Longrightarrow> ?thesis"
    by (simp add: join_lobby_def keyed_map_set)
next
  case (AcceptChallenge sid c now start)
  then show "keyed (players st) \<Longrightarrow> ?thesis"
    by (simp add: accept_challenge_def Let_def keyed_map_delete split: option.split)
next
  case (PlayerAction sid rid a)
  then show "keyed (players st) \<Longrightarrow> ?thesis"
    by (simp add: player_action_def Let_def split: option.split prod.split)
next
  case (Disconnect sid)
  then show "keyed (players st) \<Longrightarrow> ?thesis"
    by (simp add: disconnect_def Let_def keyed_map_delete split: option.split)
next
  case TimerFires
  then show "keyed (players st) \<Longrightarrow> ?thesis"
    by (simp add: timer_fires_def cleanup_def keyed_map_set split: list.split)
qed

lemma keyed_run: "keyed (players st) \<Longrightarrow> keyed (players (run st evs))"
  unfolding run_def by (induction evs arbitrary: st) (simp_all add: keyed_handle)

lemma keyed_reachable: "keyed (players (run initial evs))"
  by (rule keyed_run) (simp add: initial_def keyed_def)

lemma map_get_set: "map_get (map_set k v m) k = Some v"
  by (induction m) auto

lemma run_Nil: "run st [] = st"
  by (simp add: run_def)

lemma run_Cons: "run st (ev # evs) = run (handle st ev) evs"
  by (simp add: run_def)

lemma run_append: "run st (evs @ evs') = run (run st evs) evs'"
  by (simp add: run_def)

lemma run_joined2: "run initial joined2 = \<lparr>players = lobby2, activeRaces = [], timers = []\<rparr>"
  by (simp add: joined2_def run_def initial_def join_lobby_def lobby_name_def lobby2_def)

lemma decimal_0: "decimal 0 = ''0''"
  by (simp add: decimal_small digit_def)

lemma run_accepted:
  "run initial (joined2 @ [AcceptChallenge ''b'' ''a'' 0 0])
     = \<lparr>players = [], activeRaces = [(''race_0'', race_ab)], timers = []\<rparr>"
  unfolding run_append run_joined2
  by (simp add: run_def accept_challenge_def createRace_def decimal_0 race_ab_def lobby2_def
      new_RaceGame_def Let_def)

subsection \<open>Sessions and callers the handlers let through\<close>

text \<open>
  \<open>accept-challenge\<close> does not compare the two sockets, and \<open>player-action\<close> does not check
  that the socket is a player of the session it names: the server creates the session of
  \<open>a\<close> against \<open>a\<close>, and hands the action of the bystander \<open>c\<close> to the session of \<open>a\<close> and \<open>b\<close>.
\<close>

lemma run_self_accept:
  "run initial (joined2 @ [AcceptChallenge ''a'' ''a'' 0 0])
     = \<lparr>players = [(''b'', \<lparr>lobby_id = ''b'', lobby_username = Some ''Bob''\<rparr>)],
        activeRaces = [(''race_0'', race_aa)], timers = []\<rparr>"
  unfolding run_append run_joined2
  by (simp add: run_def accept_challenge_def createRace_def decimal_0 race_aa_def lobby2_def
      new_RaceGame_def Let_def)

lemma run_outsider_action:
  "run initial (joined2 @ [AcceptChallenge ''b'' ''a'' 0 0, PlayerAction ''c'' ''race_0'' ''accelerate''])
     = \<lparr>players = [],
        activeRaces = [(''race_0'', fst (handlePlayerAction race_ab ''c'' ''accelerate''))],
        timers = []\<rparr>"
proof -
  have "run initial (joined2 @ [AcceptChallenge ''b'' ''a'' 0 0, PlayerAction ''c'' ''race_0'' ''accelerate''])
    = run (run initial (joined2 @ [AcceptChallenge ''b'' ''a'' 0 0])) [PlayerAction ''c'' ''race_0'' ''accelerate'']"
    by (simp add: run_def)
  also have "\<dots> = \<lparr>players = [],
        activeRaces = [(''race_0'', fst (handlePlayerAction race_ab ''c'' ''accelerate''))],
        timers = []\<rparr>"
    unfolding run_accepted
    by (simp add: run_def player_action_def ex_defs hpa_defs)
  finally show ?thesis .
qed

subsection \<open>Creating a race\<close>

text \<open>
  What \<open>accept-challenge\<close> does in a state the server can reach, for an acceptor \<open>sid\<close> and a
  challenger that are both in the roster: it stores a new session under the room id \<open>race_\<close>
  followed by the decimal clock reading; the session holds the two ids and the usernames
  the roster had at that moment, and a later \<open>join-lobby\<close> does not change the stored
  sessions. Sessions created at different clock readings have different room ids.
\<close>

lemma accept_challenge_creates:
  assumes "st = run initial evs"
    and "map_get (players st) sid = Some acceptor"
    and "map_get (players st) challengerId = Some challenger"
    and "race = createRace (players st) now start challengerId sid"
    and "st' = accept_challenge sid challengerId now start st"
  shows "st' = st\<lparr>activeRaces := map_set (roomId race) race (activeRaces st),
                  players := map_delete sid (map_delete challengerId (players st))\<rparr> \<and>
    map_get (activeRaces st') (roomId race) = Some race \<and>
    roomId race = ''race_'' @ decimal now \<and>
    (\<forall>ps2 now2 start2 c2 a2. now2 \<noteq> now \<longrightarrow> roomId (createRace ps2 now2 start2 c2 a2) \<noteq> roomId race) \<and>
    id (player1 race) = challengerId \<and> username (player1 race) = lobby_username challenger \<and>
    id (player2 race) = sid \<and> username (player2 race) = lobby_username acceptor \<and>
    (\<forall>s name. activeRaces (join_lobby s name st') = activeRaces st')"
proof -
  have k: "keyed (players st)"
    unfolding assms(1) by (rule keyed_reachable)
  have ids: "lobby_id acceptor = sid" "lobby_id challenger = challengerId"
    using keyed_map_get [OF k assms(2)] keyed_map_get [OF k assms(3)] by simp_all
  have st': "st' = st\<lparr>activeRaces := map_set (roomId race) race (activeRaces st),
                  players := map_delete sid (map_delete challengerId (players st))\<rparr>"
    unfolding assms(5) accept_challenge_def using assms(2,3) ids
    by (simp add: Let_def assms(4))
  have stored: "map_get (activeRaces st') (roomId race) = Some race"
    unfolding st' by (simp add: map_get_set)
  have rid: "roomId race = ''race_'' @ decimal now"
    by (simp add: assms(4) createRace_def new_RaceGame_def)
  have fresh: "roomId (createRace ps2 now2 start2 c2 a2) \<noteq> roomId race" if "now2 \<noteq> now"
    for ps2 now2 start2 c2 a2
    using that unfolding assms(4) by (simp add: room_id_inj)
  have snap: "id (player1 race) = challengerId" "username (player1 race) = lobby_username challenger"
    "id (player2 race) = sid" "username (player2 race) = lobby_username acceptor"
    using assms(2,3) by (simp_all add: assms(4) createRace_def new_RaceGame_def new_player_def)
  have later: "activeRaces (join_lobby s name st') = activeRaces st'" for s name
    by (simp add: join_lobby_def)
  show ?thesis using st' stored rid fresh snap later by blast
qed

lemma accept_challenge_creates_example:
  "map_get (players (run initial joined2)) ''b'' = Some \<lparr>lobby_id = ''b'', lobby_username = Some ''Bob''\<rparr> \<and>
   map_get (players (run initial joined2)) ''a'' = Some \<lparr>lobby_id = ''a'', lobby_username = Some ''Ann''\<rparr> \<and>
   activeRaces (accept_challenge ''b'' ''a'' 7 8 (run initial joined2))
     = [(''race_7'', createRace lobby2 7 8 ''a'' ''b'')] \<and>
   username (player1 (createRace lobby2 7 8 ''a'' ''b'')) = Some ''Ann'' \<and>
   username (player2 (createRace lobby2 7 8 ''a'' ''b'')) = Some ''Bob'' \<and>
   (9::nat) \<noteq> 7 \<and>
   roomId (createRace [] 9 9 ''c'' ''d'') \<noteq> roomId (createRace lobby2 7 8 ''a'' ''b'')"
  using accept_challenge_creates [OF refl _ _ refl refl, where evs = joined2 and sid = "''b''"
      and challengerId = "''a''" and now = 7 and start = 8
      and acceptor = "\<lparr>lobby_id = ''b'', lobby_username = Some ''Bob''\<rparr>"
      and challenger = "\<lparr>lobby_id = ''a'', lobby_username = Some ''Ann''\<rparr>"]
  unfolding run_joined2
  by (simp add: lobby2_def decimal_small digit_def accept_challenge_def createRace_def
      new_RaceGame_def new_player_def Let_def)

text \<open>
  C8: the specification asks that every new session get a room id no other session has.
  Line 153 makes the id from the clock alone, and line 155 stores the session under it. When
  \<open>b\<close> accepts \<open>a\<close> and \<open>d\<close> accepts \<open>c\<close> within one millisecond, here at clock reading \<open>7\<close>, both
  sessions get the room id \<open>race_7\<close> and the second replaces the first in the table: \<open>a\<close> and
  \<open>b\<close> are out of the roster and in no session, and the next \<open>accelerate\<close> of \<open>a\<close> for its room
  id moves \<open>d\<close>.
\<close>

theorem same_millisecond_session_replaced:
  "activeRaces (run initial (joined4 @ [AcceptChallenge ''b'' ''a'' 7 7]))
     = [(''race_7'', createRace (players (run initial joined4)) 7 7 ''a'' ''b'')] \<and>
   run initial (joined4 @ [AcceptChallenge ''b'' ''a'' 7 7, AcceptChallenge ''d'' ''c'' 7 7])
     = \<lparr>players = [],
        activeRaces = [(''race_7'', createRace (players (run initial joined4)) 7 7 ''c'' ''d'')],
        timers = []\<rparr> \<and>
   roomId (createRace (players (run initial joined4)) 7 7 ''a'' ''b'')
     = roomId (createRace (players (run initial joined4)) 7 7 ''c'' ''d'') \<and>
   find_race ''a'' (activeRaces (run initial
       (joined4 @ [AcceptChallenge ''b'' ''a'' 7 7, AcceptChallenge ''d'' ''c'' 7 7]))) = None \<and>
   find_race ''b'' (activeRaces (run initial
       (joined4 @ [AcceptChallenge ''b'' ''a'' 7 7, AcceptChallenge ''d'' ''c'' 7 7]))) = None \<and>
   map (id \<circ> player2 \<circ> snd) (activeRaces (run initial
       (joined4 @ [AcceptChallenge ''b'' ''a'' 7 7, AcceptChallenge ''d'' ''c'' 7 7,
                   PlayerAction ''a'' ''race_7'' ''accelerate'']))) = [''d''] \<and>
   map (progress \<circ> player2 \<circ> snd) (activeRaces (run initial
       (joined4 @ [AcceptChallenge ''b'' ''a'' 7 7, AcceptChallenge ''d'' ''c'' 7 7,
                   PlayerAction ''a'' ''race_7'' ''accelerate'']))) = [2]"
  by (simp add: joined4_def joined2_def run_def initial_def join_lobby_def lobby_name_def
      accept_challenge_def createRace_def new_RaceGame_def new_player_def decimal_small digit_def
      player_action_def hpa_defs)

subsection \<open>The deferred cleanup\<close>

lemma player_action_accelerate_run:
  "activeRaces st = [(rid, g)] \<Longrightarrow> id (player1 g) = pid \<Longrightarrow> \<not> finished g \<Longrightarrow>
   \<not> isDrifting (player1 g) \<Longrightarrow> boost (player1 g) = 100 \<Longrightarrow>
   progress (player1 g) + 2 * of_nat n < 1000 \<Longrightarrow>
   run st (replicate n (PlayerAction pid rid ''accelerate''))
     = st\<lparr>activeRaces :=
         [(rid, g\<lparr>player1 := (player1 g)\<lparr>progress := progress (player1 g) + 2 * of_nat n\<rparr>\<rparr>)]\<rparr>"
proof (induction n arbitrary: st g)
  case 0
  then show ?case by (simp add: run_Nil)
next
  case (Suc n)
  let ?g = "g\<lparr>player1 := (player1 g)\<lparr>progress := progress (player1 g) + 2\<rparr>\<rparr>"
  let ?st = "st\<lparr>activeRaces := [(rid, ?g)]\<rparr>"
  have "handlePlayerAction g pid ''accelerate'' = (?g, False)"
    using Suc.prems by (intro accelerate_player1) simp_all
  then have step: "player_action pid rid ''accelerate'' st = ?st"
    using Suc.prems(1) by (simp add: player_action_def)
  have "run ?st (replicate n (PlayerAction pid rid ''accelerate''))
     = ?st\<lparr>activeRaces :=
         [(rid, ?g\<lparr>player1 := (player1 ?g)\<lparr>progress := progress (player1 ?g) + 2 * of_nat n\<rparr>\<rparr>)]\<rparr>"
    using Suc.prems by (intro Suc.IH) (simp_all add: algebra_simps)
  then show ?case
    by (simp add: run_Cons step algebra_simps)
qed

lemma run_race_to_finish:
  "run initial race_to_finish
     = \<lparr>players = [],
        activeRaces = [(''race_0'', race_ab\<lparr>player1 := (player1 race_ab)\<lparr>progress := 1000\<rparr>,
                           finished := True, winner := Some ''a''\<rparr>)],
        timers = [(''race_0'', race_ab\<lparr>player1 := (player1 race_ab)\<lparr>progress := 1000\<rparr>,
                           finished := True, winner := Some ''a''\<rparr>)]\<rparr>"
proof -
  let ?ev = "PlayerAction ''a'' ''race_0'' ''accelerate''"
  have "(500::nat) = Suc 499" by simp
  then have "replicate 500 ?ev = replicate 499 ?ev @ [?ev]"
    by (simp only: replicate_Suc replicate_append_same)
  then have split: "race_to_finish = (joined2 @ [AcceptChallenge ''b'' ''a'' 0 0]) @ replicate 499 ?ev @ [?ev]"
    by (simp add: race_to_finish_def)
  have "run (run initial (joined2 @ [AcceptChallenge ''b'' ''a'' 0 0])) (replicate 499 ?ev)
    = \<lparr>players = [], activeRaces = [(''race_0'', photo_finish)], timers = []\<rparr>"
    unfolding run_accepted
    using player_action_accelerate_run [of "\<lparr>players = [], activeRaces = [(''race_0'', race_ab)], timers = []\<rparr>"
        "''race_0''" race_ab "''a''" 499]
    by (simp add: ex_defs)
  then show ?thesis
    unfolding split run_append
    by (simp add: run_def player_action_def ex_defs hpa_defs)
qed

lemma map_delete_absent: "map_get m k = None \<Longrightarrow> map_delete k m = m"
  by (induction m) (auto split: if_splits)

lemma cleanup_keeps_table:
  "map_get (activeRaces st) rid = None \<Longrightarrow> activeRaces (cleanup rid race st) = activeRaces st"
  by (simp add: cleanup_def map_delete_absent)

text \<open>
  C7: the specification asks that a cleanup firing for a session that is already gone
  change neither the session table nor the roster. The callback of lines 192 to 198 has no
  check that the session is still in the table: it always stores both players in the
  roster. Here \<open>a\<close> and \<open>b\<close> race, \<open>a\<close> finishes, and \<open>a\<close> disconnects before the cleanup fires:
  the disconnect removes the session, the roster is empty, and the cleanup then puts both
  \<open>a\<close>, who is no longer connected, and \<open>b\<close> into the roster. The session table stays empty.
\<close>

theorem cleanup_after_disconnect_restores_roster:
  "players (run initial (race_to_finish @ [Disconnect ''a''])) = [] \<and>
   activeRaces (run initial (race_to_finish @ [Disconnect ''a''])) = [] \<and>
   map fst (timers (run initial (race_to_finish @ [Disconnect ''a'']))) = [''race_0''] \<and>
   players (run initial (race_to_finish @ [Disconnect ''a'', TimerFires])) = lobby2 \<and>
   activeRaces (run initial (race_to_finish @ [Disconnect ''a'', TimerFires])) = []"
  unfolding run_append run_race_to_finish
  by (simp add: run_def disconnect_def timer_fires_def cleanup_def ex_defs)

end
